theory Spec2Isabelle
  imports Main "HOL-Library.Word"
begin

unbundle bit_operations_syntax

section \<open>Bytes, bits and exceptions\<close>

text \<open>
  Python \<open>bytes\<close> are lists of 8-bit words. Python integers are unbounded and never
  negative here, so they are \<open>nat\<close>. A bit of the bitstream is the Python integer 0 or 1.
  A raised exception is a value of \<open>exn\<close>; a function that may raise returns
  \<open>exn + 'a\<close> with \<open>Inl\<close> for the exception. \<open>str_exn\<close> stands for \<open>str(e)\<close>;
  the libraries' own wording of a message is abbreviated.

  The model covers the class \<open>F5Steganography\<close> without its OutGuess paths
  (\<open>embed_with_outguess\<close>, \<open>extract_with_outguess\<close>, which run an external program)
  and without the interactive menu.
\<close>

type_synonym byte = "8 word"

datatype exn =
    StructError
  | ValueError string
  | IndexError
  | OSError string

fun str_exn :: "exn \<Rightarrow> string" where
  "str_exn StructError = ''argument out of range''"
| "str_exn (ValueError m) = m"
| "str_exn IndexError = ''index out of bounds''"
| "str_exn (OSError m) = m"

text \<open>
  A \<open>str\<close> is represented by its UTF-8 bytes (a \<open>char\<close> is a byte), so
  \<open>password.encode()\<close> reads the characters off as bytes.
\<close>

definition encode :: "string \<Rightarrow> byte list" where
  "encode s = map (\<lambda>c. of_nat (of_char c)) s"

text \<open>\<open>int.from_bytes(bs, 'big')\<close>.\<close>

definition from_bytes_big :: "byte list \<Rightarrow> nat" where
  "from_bytes_big bs = foldl (\<lambda>acc b. acc * 256 + unat b) 0 bs"

text \<open>One unsigned 32-bit field of \<open>struct.pack('>II', ...)\<close>, most significant byte first.\<close>

definition be32 :: "nat \<Rightarrow> byte list" where
  "be32 n = [of_nat (n div 16777216), of_nat (n div 65536), of_nat (n div 256), of_nat n]"

text \<open>\<open>struct.pack('>II', a, b)\<close>: raises \<open>struct.error\<close> unless both fit in 32 bits.\<close>

definition pack_II :: "nat \<Rightarrow> nat \<Rightarrow> exn + byte list" where
  "pack_II a b =
     (if a < 4294967296 \<and> b < 4294967296 then Inr (be32 a @ be32 b) else Inl StructError)"

text \<open>\<open>struct.unpack('>II', bs)\<close>: raises unless \<open>bs\<close> has exactly 8 bytes.\<close>

definition unpack_II :: "byte list \<Rightarrow> exn + (nat \<times> nat)" where
  "unpack_II bs =
     (if length bs = 8 then Inr (from_bytes_big (take 4 bs), from_bytes_big (drop 4 bs))
      else Inl StructError)"

subsection \<open>zlib.crc32\<close>

text \<open>
  The CRC-32 of zlib (reflected polynomial \<open>0xEDB88320\<close>, initial value and final
  complement \<open>0xFFFFFFFF\<close>), bit by bit.
\<close>

definition crc_shift :: "32 word \<Rightarrow> 32 word" where
  "crc_shift c = (if bit c 0 then drop_bit 1 c XOR 0xEDB88320 else drop_bit 1 c)"

definition crc_update :: "32 word \<Rightarrow> byte \<Rightarrow> 32 word" where
  "crc_update c b = (crc_shift ^^ 8) (c XOR ucast b)"

definition crc32 :: "byte list \<Rightarrow> 32 word" where
  "crc32 bs = foldl crc_update 0xFFFFFFFF bs XOR 0xFFFFFFFF"

subsection \<open>Crypto.Util.Padding and AES in CBC mode\<close>

text \<open>\<open>pad(data, block_size)\<close> with the default PKCS7 style.\<close>

definition pad :: "byte list \<Rightarrow> nat \<Rightarrow> byte list" where
  "pad d bs = (let p = bs - length d mod bs in d @ replicate p (of_nat p))"

text \<open>\<open>unpad(padded, block_size)\<close>: every malformed padding raises \<open>ValueError\<close>.\<close>

definition unpad :: "byte list \<Rightarrow> nat \<Rightarrow> exn + byte list" where
  "unpad d bs =
     (let n = length d in
      if n = 0 then Inl (ValueError ''Zero-length input cannot be unpadded'')
      else if n mod bs \<noteq> 0 then Inl (ValueError ''Input data is not padded'')
      else
        let p = unat (last d) in
        if p < 1 \<or> p > min bs n then Inl (ValueError ''Padding is incorrect.'')
        else if drop (n - p) d \<noteq> replicate p (last d)
          then Inl (ValueError ''PKCS#7 padding is incorrect.'')
        else Inr (take (n - p) d))"

definition xor_bytes :: "byte list \<Rightarrow> byte list \<Rightarrow> byte list" where
  "xor_bytes a b = map2 (XOR) a b"

text \<open>
  CBC chaining over a block function \<open>E\<close> (the AES-256 block encryption under the
  session key) and its inverse direction \<open>D\<close>. The third argument counts the 16-byte
  blocks still to process.
\<close>

fun cbc_enc_blocks :: "(byte list \<Rightarrow> byte list) \<Rightarrow> byte list \<Rightarrow> byte list \<Rightarrow> nat \<Rightarrow> byte list" where
  "cbc_enc_blocks E prev pt 0 = []"
| "cbc_enc_blocks E prev pt (Suc n) =
     (let c = E (xor_bytes (take 16 pt) prev) in c @ cbc_enc_blocks E c (drop 16 pt) n)"

fun cbc_dec_blocks :: "(byte list \<Rightarrow> byte list) \<Rightarrow> byte list \<Rightarrow> byte list \<Rightarrow> nat \<Rightarrow> byte list" where
  "cbc_dec_blocks D prev ct 0 = []"
| "cbc_dec_blocks D prev ct (Suc n) =
     (let c = take 16 ct in xor_bytes (D c) prev @ cbc_dec_blocks D c (drop 16 ct) n)"

text \<open>
  \<open>cipher.encrypt\<close> and \<open>cipher.decrypt\<close> of a CBC cipher object: both raise
  \<open>ValueError\<close> when the data is not a whole number of blocks.
\<close>

definition cbc_encrypt :: "(byte list \<Rightarrow> byte list) \<Rightarrow> byte list \<Rightarrow> byte list \<Rightarrow> exn + byte list" where
  "cbc_encrypt E iv pt =
     (if length pt mod 16 \<noteq> 0
      then Inl (ValueError ''Data must be padded to 16 byte boundary in CBC mode'')
      else Inr (cbc_enc_blocks E iv pt (length pt div 16)))"

definition cbc_decrypt :: "(byte list \<Rightarrow> byte list) \<Rightarrow> byte list \<Rightarrow> byte list \<Rightarrow> exn + byte list" where
  "cbc_decrypt D iv ct =
     (if length ct mod 16 \<noteq> 0
      then Inl (ValueError ''Data must be padded to 16 byte boundary in CBC mode'')
      else Inr (cbc_dec_blocks D iv ct (length ct div 16)))"

section \<open>The libraries the program calls\<close>

text \<open>
  The hash functions and the AES block function come from \<open>hashlib\<close> and
  \<open>Crypto.Cipher.AES\<close>, the JPEG codec from \<open>PIL\<close>: they are parameters of the model.
  \<open>aes_enc k\<close> and \<open>aes_dec k\<close> are the block functions under key \<open>k\<close>;
  \<open>jpeg q img\<close> is the raster a decoder reads back from the file the encoder wrote at
  quality \<open>q\<close>; \<open>which_outguess\<close> is whether \<open>which outguess\<close> succeeds.
\<close>

record image =
  width :: nat
  height :: nat
  pixels :: "byte list"

record lib =
  pbkdf2_hmac_sha256 :: "byte list \<Rightarrow> byte list \<Rightarrow> nat \<Rightarrow> nat \<Rightarrow> byte list"
  sha256 :: "byte list \<Rightarrow> byte list"
  aes_enc :: "byte list \<Rightarrow> byte list \<Rightarrow> byte list"
  aes_dec :: "byte list \<Rightarrow> byte list \<Rightarrow> byte list"
  jpeg :: "int \<Rightarrow> image \<Rightarrow> image"
  which_outguess :: bool

text \<open>
  What a block cipher guarantees: on a 16-byte block the two directions keep the length
  and decryption undoes encryption.
\<close>

definition block_cipher :: "(byte list \<Rightarrow> byte list) \<Rightarrow> (byte list \<Rightarrow> byte list) \<Rightarrow> bool" where
  "block_cipher E D = (\<forall>b. length b = 16 \<longrightarrow> length (E b) = 16 \<and> D (E b) = b)"

text \<open>
  The state outside the program: the image files (a file is the RGB raster that
  \<open>Image.open(path).convert('RGB')\<close> yields, flattened row by row as
  \<open>np.array(img).flatten()\<close> does), the paths that can be written, and the state of
  numpy's global random generator.
\<close>

record world =
  files :: "string \<rightharpoonup> image"
  writable :: "string \<Rightarrow> bool"
  rng :: nat

definition wf_image :: "image \<Rightarrow> bool" where
  "wf_image img = (length (pixels img) = width img * height img * 3)"

definition image_open :: "world \<Rightarrow> string \<Rightarrow> exn + image" where
  "image_open w path =
     (case files w path of
        None \<Rightarrow> Inl (OSError ''cannot open image file'')
      | Some img \<Rightarrow> Inr img)"

definition image_save :: "lib \<Rightarrow> world \<Rightarrow> string \<Rightarrow> int \<Rightarrow> image \<Rightarrow> exn + world" where
  "image_save L w path q img =
     (if writable w path then Inr (w\<lparr>files := (files w)(path \<mapsto> jpeg L q img)\<rparr>)
      else Inl (OSError ''cannot write image file''))"

subsection \<open>The permutation generator\<close>

text \<open>
  Modelled from the spec: the permutation generator. The program calls
  \<open>np.random.seed\<close> and \<open>np.random.permutation\<close>, and numpy is not part of the
  sources; section 4.3 of the specification asks for a deterministic seeded shuffle and
  names a seeded Fisher-Yates. \<open>np_seed\<close> replaces the whole generator state by one
  computed from the seed; \<open>np_permutation\<close> shuffles \<open>[0..<n]\<close> from the last position
  down, drawing one number per position, and returns the advanced state.
\<close>

definition np_seed :: "nat \<Rightarrow> nat" where
  "np_seed s = s mod 4294967296"

definition rng_next :: "nat \<Rightarrow> nat" where
  "rng_next g = (1103515245 * g + 12345) mod 4294967296"

fun shuffle :: "nat \<Rightarrow> nat list \<Rightarrow> nat \<Rightarrow> nat list \<times> nat" where
  "shuffle g xs 0 = (xs, g)"
| "shuffle g xs (Suc i) =
     (let g' = rng_next g; j = g' mod (Suc (Suc i))
      in shuffle g' (xs[Suc i := xs ! j, j := xs ! Suc i]) i)"

definition np_permutation :: "nat \<Rightarrow> nat \<Rightarrow> nat list \<times> nat" where
  "np_permutation g n = shuffle g [0..<n] (n - 1)"

section \<open>class F5Steganography\<close>

record f5 =
  password :: string
  quality :: int
  key :: "byte list"
  seed :: nat
  use_outguess :: bool

definition check_outguess :: "lib \<Rightarrow> bool" where
  "check_outguess L = which_outguess L"

definition init :: "lib \<Rightarrow> string \<Rightarrow> int \<Rightarrow> f5" where
  "init L pw q =
     \<lparr> password = pw,
       quality = q,
       key = pbkdf2_hmac_sha256 L (encode pw) (encode ''F5StegoSalt'') 100000 32,
       seed = from_bytes_big (take 8 (sha256 L (encode pw))),
       use_outguess = check_outguess L \<rparr>"

text \<open>
  \<open>_aes_encrypt\<close>: \<open>AES.new(self.key, AES.MODE_CBC)\<close> draws 16 random bytes for the IV;
  they are the argument \<open>iv\<close>.
\<close>

definition aes_encrypt :: "lib \<Rightarrow> f5 \<Rightarrow> byte list \<Rightarrow> byte list \<Rightarrow> exn + (byte list \<times> byte list)" where
  "aes_encrypt L self iv data =
     (case cbc_encrypt (aes_enc L (key self)) iv (pad data 16) of
        Inl e \<Rightarrow> Inl e
      | Inr ct_bytes \<Rightarrow> Inr (iv, ct_bytes))"

definition aes_decrypt :: "lib \<Rightarrow> f5 \<Rightarrow> byte list \<Rightarrow> byte list \<Rightarrow> exn + byte list" where
  "aes_decrypt L self iv ct =
     (case cbc_decrypt (aes_dec L (key self)) iv ct of
        Inl e \<Rightarrow> Inl e
      | Inr p \<Rightarrow> unpad p 16)"

definition prepare_data :: "lib \<Rightarrow> f5 \<Rightarrow> byte list \<Rightarrow> byte list \<Rightarrow> exn + byte list" where
  "prepare_data L self iv secret_data =
     (let len = length secret_data;
          crc = unat (crc32 secret_data AND 0xffffffff)
      in case pack_II len crc of
           Inl e \<Rightarrow> Inl e
         | Inr metadata \<Rightarrow>
             (case aes_encrypt L self iv (metadata @ secret_data) of
                Inl e \<Rightarrow> Inl e
              | Inr (iv', encrypted) \<Rightarrow> Inr (iv' @ encrypted)))"

text \<open>The body of the \<open>try\<close> block of \<open>_extract_data\<close>, then the function itself.\<close>

definition extract_data_try :: "lib \<Rightarrow> f5 \<Rightarrow> byte list \<Rightarrow> exn + byte list option" where
  "extract_data_try L self raw_data =
     (let iv = take 16 raw_data; encrypted = drop 16 raw_data
      in case aes_decrypt L self iv encrypted of
           Inl e \<Rightarrow> Inl e
         | Inr decrypted \<Rightarrow>
             if length decrypted \<ge> 8 then
               (case unpack_II (take 8 decrypted) of
                  Inl e \<Rightarrow> Inl e
                | Inr (len, expected_crc) \<Rightarrow>
                    if length decrypted \<ge> 8 + len then
                      (let data = take len (drop 8 decrypted);
                           actual_crc = unat (crc32 data AND 0xffffffff)
                       in if actual_crc = expected_crc then Inr (Some data) else Inr None)
                    else Inr None)
             else Inr None)"

definition extract_data :: "lib \<Rightarrow> f5 \<Rightarrow> byte list \<Rightarrow> byte list option" where
  "extract_data L self raw_data =
     (if length raw_data < 16 then None
      else case extract_data_try L self raw_data of
             Inl e \<Rightarrow> None
           | Inr r \<Rightarrow> r)"

subsection \<open>Redundancy coding\<close>

text \<open>
  \<open>f'{byte:08b}'\<close>: the eight bits of a byte, most significant first;
  \<open>binary_data\<close> joins them over the prepared bytes and \<open>ecc_data\<close> writes every
  bit twice.
\<close>

definition byte_bits :: "byte \<Rightarrow> nat list" where
  "byte_bits b = map (\<lambda>i. if bit b (7 - i) then 1 else 0) [0..<8]"

definition binary_data :: "byte list \<Rightarrow> nat list" where
  "binary_data prepared = concat (map byte_bits prepared)"

definition ecc_data :: "nat list \<Rightarrow> nat list" where
  "ecc_data bs = concat (map (\<lambda>b. [b, b]) bs)"

text \<open>
  The decoding loop of \<open>extract_fallback\<close>, \<open>for i in range(0, len(extracted_bits), 2)\<close>
  with its \<open>break\<close>; \<open>i\<close> is the loop variable.
\<close>

function error_corrected_bits :: "nat list \<Rightarrow> nat \<Rightarrow> nat list" where
  "error_corrected_bits extracted_bits i =
     (if i < length extracted_bits then
        (if i + 2 > length extracted_bits then []
         else (let chunk = take 2 (drop i extracted_bits)
               in (if sum_list chunk \<ge> 1 then 1 else 0)
                  # error_corrected_bits extracted_bits (i + 2)))
      else [])"
  by pat_completeness auto
termination
  by (relation "measure (\<lambda>(bs, i). length bs - i)") auto

text \<open>
  One byte of the alignment search: \<open>byte = (byte << 1) | bits[i + j]\<close> for \<open>j\<close> in
  \<open>range(8)\<close>; then the loop \<open>for i in range(offset, len(bits), 8)\<close> with its
  \<open>break\<close>, and \<open>bytes(bytes_list)\<close>, which raises \<open>ValueError\<close> on a value above 255.
\<close>

definition byte_at :: "nat list \<Rightarrow> nat \<Rightarrow> nat" where
  "byte_at bs i = foldl (\<lambda>byte j. push_bit 1 byte OR bs ! (i + j)) 0 [0..<8]"

function bytes_list :: "nat list \<Rightarrow> nat \<Rightarrow> nat list" where
  "bytes_list bs i =
     (if i < length bs then
        (if i + 8 > length bs then [] else byte_at bs i # bytes_list bs (i + 8))
      else [])"
  by pat_completeness auto
termination
  by (relation "measure (\<lambda>(bs, i). length bs - i)") auto

definition to_bytes :: "nat list \<Rightarrow> exn + byte list" where
  "to_bytes ns =
     (if \<forall>n \<in> set ns. n < 256 then Inr (map of_nat ns)
      else Inl (ValueError ''bytes must be in range(0, 256)''))"

subsection \<open>The embedding and extraction loops\<close>

text \<open>
  The loop \<open>for idx in indices\<close> of \<open>embed_fallback\<close>: it stops when the bits are
  used up, and flips the second least significant bit of the slot when it differs from
  the bit to embed. Reading a slot outside the array raises \<open>IndexError\<close>.
\<close>

fun embed_loop :: "byte list \<Rightarrow> nat list \<Rightarrow> nat list \<Rightarrow> nat \<Rightarrow> exn + byte list" where
  "embed_loop flat_pixels [] bits bit_index = Inr flat_pixels"
| "embed_loop flat_pixels (idx # indices) bits bit_index =
     (if bit_index \<ge> length bits then Inr flat_pixels
      else if idx \<ge> length flat_pixels then Inl IndexError
      else
        (let pixel_val = flat_pixels ! idx;
             b = bits ! bit_index;
             current_bit = unat (drop_bit 1 pixel_val AND 1)
         in embed_loop
              (if current_bit \<noteq> b then flat_pixels[idx := pixel_val XOR push_bit 1 1]
               else flat_pixels)
              indices bits (bit_index + 1)))"

text \<open>The loop of \<open>extract_fallback\<close> that reads the second least significant bit of every slot.\<close>

fun extracted_bits :: "byte list \<Rightarrow> nat list \<Rightarrow> exn + nat list" where
  "extracted_bits flat_pixels [] = Inr []"
| "extracted_bits flat_pixels (idx # indices) =
     (if idx \<ge> length flat_pixels then Inl IndexError
      else case extracted_bits flat_pixels indices of
             Inl e \<Rightarrow> Inl e
           | Inr rest \<Rightarrow> Inr (unat (drop_bit 1 (flat_pixels ! idx) AND 1) # rest))"

text \<open>
  The alignment search, \<open>for offset in range(8)\<close>: the first offset whose bytes
  \<open>_extract_data\<close> accepts with a result that is true for \<open>if data:\<close>, that is,
  neither \<open>None\<close> nor empty.
\<close>

fun try_offsets :: "lib \<Rightarrow> f5 \<Rightarrow> nat list \<Rightarrow> nat list \<Rightarrow> exn + byte list option" where
  "try_offsets L self bs [] = Inr None"
| "try_offsets L self bs (offset # offsets) =
     (case to_bytes (bytes_list bs offset) of
        Inl e \<Rightarrow> Inl e
      | Inr extracted \<Rightarrow>
          (case extract_data L self extracted of
             Some data \<Rightarrow>
               if data \<noteq> [] then Inr (Some data) else try_offsets L self bs offsets
           | None \<Rightarrow> try_offsets L self bs offsets))"

subsection \<open>embed_fallback and extract_fallback\<close>

text \<open>\<open>str(n)\<close> of a natural number, for the messages.\<close>

fun show_nat :: "nat \<Rightarrow> string" where
  "show_nat n =
     (if n < 10 then [''0123456789'' ! n]
      else show_nat (n div 10) @ [''0123456789'' ! (n mod 10)])"

text \<open>
  The two lines that \<open>embed_fallback\<close> and \<open>extract_fallback\<close> each run to get the
  slot order: \<open>np.random.seed(self.seed % (2**32))\<close> overwrites the generator state in
  the world, \<open>np.random.permutation(available_bits)\<close> draws from it. The result is the
  slot order and the generator state left behind.
\<close>

definition embed_indices :: "f5 \<Rightarrow> world \<Rightarrow> nat \<Rightarrow> nat list \<times> nat" where
  "embed_indices self w available_bits =
     (let w1 = w\<lparr>rng := np_seed (seed self mod 2 ^ 32)\<rparr>
      in np_permutation (rng w1) available_bits)"

definition extract_indices :: "f5 \<Rightarrow> world \<Rightarrow> nat \<Rightarrow> nat list \<times> nat" where
  "extract_indices self w available_bits =
     (let w1 = w\<lparr>rng := np_seed (seed self mod 2 ^ 32)\<rparr>
      in np_permutation (rng w1) available_bits)"

text \<open>
  The body of the \<open>try\<close> block of \<open>embed_fallback\<close>: it ends in an exception or in the
  pair the function returns, and in the world it leaves. The \<open>print\<close> calls are left
  out; the division in the last of them is by the number of bits, which is never 0.
\<close>

definition embed_fallback_try ::
  "lib \<Rightarrow> f5 \<Rightarrow> byte list \<Rightarrow> world \<Rightarrow> string \<Rightarrow> byte list \<Rightarrow> string \<Rightarrow> (exn + (bool \<times> string)) \<times> world" where
  "embed_fallback_try L self iv w cover_path secret_data output_path =
     (case prepare_data L self iv secret_data of
        Inl e \<Rightarrow> (Inl e, w)
      | Inr prepared \<Rightarrow>
          (let bits = ecc_data (binary_data prepared) in
           case image_open w cover_path of
             Inl e \<Rightarrow> (Inl e, w)
           | Inr img \<Rightarrow>
               (let total_bits_needed = length bits;
                    available_bits = width img * height img * 3
                in if total_bits_needed > available_bits then
                     (Inr (False, ''Insufficient capacity: need '' @ show_nat total_bits_needed
                                  @ '' bits, have '' @ show_nat available_bits), w)
                   else
                     (let (indices, g) = embed_indices self w available_bits;
                          w2 = w\<lparr>rng := g\<rparr>
                      in case embed_loop (pixels img) indices bits 0 of
                           Inl e \<Rightarrow> (Inl e, w2)
                         | Inr flat \<Rightarrow>
                             (case image_save L w2 output_path (quality self)
                                     (img\<lparr>pixels := flat\<rparr>) of
                                Inl e \<Rightarrow> (Inl e, w2)
                              | Inr w3 \<Rightarrow>
                                  (Inr (True, ''Fallback embedding successful - Embedded ''
                                              @ show_nat (length secret_data) @ '' bytes''),
                                   w3))))))"

definition embed_fallback ::
  "lib \<Rightarrow> f5 \<Rightarrow> byte list \<Rightarrow> world \<Rightarrow> string \<Rightarrow> byte list \<Rightarrow> string \<Rightarrow> (bool \<times> string) \<times> world" where
  "embed_fallback L self iv w cover_path secret_data output_path =
     (case embed_fallback_try L self iv w cover_path secret_data output_path of
        (Inl e, w') \<Rightarrow> ((False, ''Fallback embedding failed: '' @ str_exn e), w')
      | (Inr r, w') \<Rightarrow> (r, w'))"

definition extract_fallback_try ::
  "lib \<Rightarrow> f5 \<Rightarrow> world \<Rightarrow> string \<Rightarrow> (exn + (byte list option \<times> string)) \<times> world" where
  "extract_fallback_try L self w stego_path =
     (case image_open w stego_path of
        Inl e \<Rightarrow> (Inl e, w)
      | Inr img \<Rightarrow>
          (let available_bits = width img * height img * 3;
               (indices, g) = extract_indices self w available_bits;
               w2 = w\<lparr>rng := g\<rparr>
           in case extracted_bits (pixels img) indices of
                Inl e \<Rightarrow> (Inl e, w2)
              | Inr ex \<Rightarrow>
                  (case try_offsets L self (error_corrected_bits ex 0) [0..<8] of
                     Inl e \<Rightarrow> (Inl e, w2)
                   | Inr (Some data) \<Rightarrow> (Inr (Some data, ''Fallback extraction successful''), w2)
                   | Inr None \<Rightarrow>
                       (Inr (None, ''No valid data found in fallback extraction''), w2))))"

definition extract_fallback ::
  "lib \<Rightarrow> f5 \<Rightarrow> world \<Rightarrow> string \<Rightarrow> (byte list option \<times> string) \<times> world" where
  "extract_fallback L self w stego_path =
     (case extract_fallback_try L self w stego_path of
        (Inl e, w') \<Rightarrow> ((None, ''Fallback extraction failed: '' @ str_exn e), w')
      | (Inr r, w') \<Rightarrow> (r, w'))"

subsection \<open>Auxiliary notions for the statements\<close>

text \<open>
  The value one step of the embedding loop leaves in a slot that held \<open>v\<close> when the
  bit to embed is \<open>b\<close>.
\<close>

definition write2 :: "byte \<Rightarrow> nat \<Rightarrow> byte" where
  "write2 v b = (if unat (drop_bit 1 v AND 1) \<noteq> b then v XOR push_bit 1 1 else v)"

text \<open>
  The decoder in the words of the specification (section 4.2, \<open>decode\<close>), to be compared
  with \<open>extract_data\<close>. \<open>plaintext\<close> is the CBC decryption of the bytes after the
  first 16 under the IV made of the first 16. The padding is malformed when the
  ciphertext is not a whole number of blocks, when nothing was decrypted, or when the
  last byte \<open>p\<close> of the decrypted text is not between 1 and 16 or is not repeated over
  the last \<open>p\<close> bytes.
\<close>

definition plaintext :: "lib \<Rightarrow> f5 \<Rightarrow> byte list \<Rightarrow> byte list" where
  "plaintext L self raw =
     cbc_dec_blocks (aes_dec L (key self)) (take 16 raw) (drop 16 raw)
       (length (drop 16 raw) div 16)"

definition bad_padding :: "byte list \<Rightarrow> bool" where
  "bad_padding plain =
     (plain = [] \<or> length plain mod 16 \<noteq> 0
      \<or> unat (last plain) < 1 \<or> unat (last plain) > 16
      \<or> drop (length plain - unat (last plain)) plain
          \<noteq> replicate (unat (last plain)) (last plain))"

definition padding_malformed :: "byte list \<Rightarrow> byte list \<Rightarrow> bool" where
  "padding_malformed ct plain = (length ct mod 16 \<noteq> 0 \<or> bad_padding plain)"

definition decode :: "lib \<Rightarrow> f5 \<Rightarrow> byte list \<Rightarrow> byte list option" where
  "decode L self raw =
     (let plain = plaintext L self raw;
          remaining = take (length plain - unat (last plain)) plain;
          len = from_bytes_big (take 4 remaining);
          checksum = from_bytes_big (take 4 (drop 4 remaining));
          payload = take len (drop 8 remaining)
      in if length raw < 16 \<or> padding_malformed (drop 16 raw) plain \<or> length remaining < 8
            \<or> length remaining < 8 + len \<or> unat (crc32 payload) \<noteq> checksum
         then None else Some payload)"

text \<open>
  A codec that keeps the size of the raster: re-encoding changes pixel values, never the
  dimensions.
\<close>

definition keeps_size :: "(image \<Rightarrow> image) \<Rightarrow> bool" where
  "keeps_size codec =
     (\<forall>img. width (codec img) = width img \<and> height (codec img) = height img
            \<and> length (pixels (codec img)) = length (pixels img))"

text \<open>
  Sample instances of the parameters, at which the hypotheses of the theorems below are
  discharged: a byte-wise block function with its inverse, a codec that keeps the raster,
  and a world with one 100 by 100 cover image.
\<close>

definition sample_lib :: lib where
  "sample_lib =
     \<lparr> pbkdf2_hmac_sha256 = (\<lambda>pw salt iterations dklen. take dklen (pw @ salt @ replicate dklen 0)),
       sha256 = (\<lambda>m. take 32 (m @ replicate 32 0)),
       aes_enc = (\<lambda>k b. map (\<lambda>x. x + 1) b),
       aes_dec = (\<lambda>k b. map (\<lambda>x. x - 1) b),
       jpeg = (\<lambda>q img. img),
       which_outguess = False \<rparr>"

definition sample_cover :: image where
  "sample_cover = \<lparr> width = 100, height = 100, pixels = replicate 30000 0 \<rparr>"

definition sample_world :: world where
  "sample_world =
     \<lparr> files = [''cover.jpg'' \<mapsto> sample_cover], writable = (\<lambda>p. True), rng = 0 \<rparr>"

definition hello :: "byte list" where
  "hello = [0x68, 0x65, 0x6c, 0x6c, 0x6f]"

section \<open>Properties\<close>

declare error_corrected_bits.simps [simp del]
declare bytes_list.simps [simp del]
declare show_nat.simps [simp del]

subsection \<open>Redundancy coding\<close>

lemma length_byte_bits: "length (byte_bits b) = 8"
  by (simp add: byte_bits_def)

lemma byte_bits_le1: "x \<in> set (byte_bits b) \<Longrightarrow> x \<le> 1"
  by (auto simp: byte_bits_def)

lemma length_binary_data: "length (binary_data bs) = 8 * length bs"
  by (induction bs) (simp_all add: binary_data_def length_byte_bits)

lemma binary_data_le1: "x \<in> set (binary_data bs) \<Longrightarrow> x \<le> 1"
  by (auto simp: binary_data_def dest: byte_bits_le1)

lemma length_ecc_data: "length (ecc_data bs) = 2 * length bs"
  by (induction bs) (simp_all add: ecc_data_def)

lemma ecc_data_Cons: "ecc_data (b # bs) = b # b # ecc_data bs"
  by (simp add: ecc_data_def)

lemma ecc_data_Nil: "ecc_data [] = []"
  by (simp add: ecc_data_def)

text \<open>Decoding a doubled bit sequence that follows an already consumed prefix.\<close>

lemma error_corrected_bits_ecc_data:
  "\<forall>b \<in> set bs. b \<le> 1 \<Longrightarrow> error_corrected_bits (pre @ ecc_data bs) (length pre) = bs"
proof (induction bs arbitrary: pre)
  case Nil
  show ?case
    by (simp add: ecc_data_Nil error_corrected_bits.simps [of pre "length pre"])
next
  case (Cons b bs)
  have b: "b \<le> 1" and rest: "\<forall>x \<in> set bs. x \<le> 1"
    using Cons.prems by simp_all
  have "error_corrected_bits ((pre @ [b, b]) @ ecc_data bs) (length (pre @ [b, b])) = bs"
    using Cons.IH [OF rest] .
  then have tail: "error_corrected_bits (pre @ b # b # ecc_data bs) (length pre + 2) = bs"
    by simp
  have "(if sum_list [b, b] \<ge> 1 then 1 else 0) = b"
    using b by auto
  then show ?case
    using tail
    by (subst error_corrected_bits.simps) (simp add: ecc_data_Cons)
qed

text \<open>
  Claim C6. Writing every bit of the prepared bytes twice (the bits of a byte taken most
  significant first) gives a bitstream of \<open>8 * len(rawBytes) * 2\<close> bits, and the
  decoding loop, which reads the stream in pairs and outputs 1 when either bit of the
  pair is 1, gives back the bits of the prepared bytes.
\<close>

theorem redundancy_roundtrip:
  "length (ecc_data (binary_data raw)) = 8 * length raw * 2
   \<and> error_corrected_bits (ecc_data (binary_data raw)) 0 = binary_data raw"
proof -
  have "error_corrected_bits ([] @ ecc_data (binary_data raw)) (length ([] :: nat list))
          = binary_data raw"
    by (rule error_corrected_bits_ecc_data) (auto dest: binary_data_le1)
  then show ?thesis
    by (simp add: length_ecc_data length_binary_data)
qed

theorem redundancy_roundtrip_witness:
  "length (ecc_data (binary_data hello)) = 80
   \<and> error_corrected_bits (ecc_data (binary_data hello)) 0 = binary_data hello"
  using redundancy_roundtrip [of hello] by (simp add: hello_def)

subsection \<open>The embedding loop\<close>

lemma second_bit_word: "drop_bit 1 (v :: byte) AND 1 = of_bool (bit v 1)"
  by (simp add: and_one_eq mod_2_eq_odd bit_iff_odd_drop_bit)

lemma second_bit: "unat (drop_bit 1 (v :: byte) AND 1) = (if bit v 1 then 1 else 0)"
  unfolding second_bit_word by simp

lemma bit_write2_other: "n \<noteq> Suc 0 \<Longrightarrow> bit (write2 v b) n = bit v n"
  by (auto simp: write2_def bit_simps)

lemma bit_write2_second: "b \<le> Suc 0 \<Longrightarrow> bit (write2 v b) (Suc 0) = (b = Suc 0)"
  unfolding write2_def second_bit by (auto simp: bit_simps split: if_splits)

lemma embed_loop_Cons:
  "embed_loop flat (idx # rest) bits k =
     (if k \<ge> length bits then Inr flat
      else if idx \<ge> length flat then Inl IndexError
      else embed_loop (flat[idx := write2 (flat ! idx) (bits ! k)]) rest bits (k + 1))"
  by (simp add: write2_def Let_def)

text \<open>
  The loop invariant: position \<open>p\<close> of the index sequence receives bit \<open>k + p\<close> while
  bits remain, and every other slot keeps its value.
\<close>

lemma embed_loop_inv:
  "distinct idxs \<Longrightarrow> \<forall>i \<in> set idxs. i < length flat \<Longrightarrow>
   \<exists>flat'. embed_loop flat idxs bits k = Inr flat' \<and> length flat' = length flat
     \<and> (\<forall>p < length idxs. flat' ! (idxs ! p) =
           (if k + p < length bits then write2 (flat ! (idxs ! p)) (bits ! (k + p))
            else flat ! (idxs ! p)))
     \<and> (\<forall>s. s \<notin> set idxs \<longrightarrow> flat' ! s = flat ! s)"
proof (induction idxs arbitrary: flat k)
  case Nil
  then show ?case by simp
next
  case (Cons idx rest)
  have idx: "idx < length flat" and notin: "idx \<notin> set rest" and dist: "distinct rest"
    and rest: "\<forall>i \<in> set rest. i < length flat"
    using Cons.prems by simp_all
  show ?case
  proof (cases "k \<ge> length bits")
    case True
    then show ?thesis by (simp add: embed_loop_Cons)
  next
    case False
    define flat1 where "flat1 = flat[idx := write2 (flat ! idx) (bits ! k)]"
    have len1: "length flat1 = length flat" by (simp add: flat1_def)
    from Cons.IH [OF dist, of flat1 "k + 1"] rest len1
    obtain flat' where run: "embed_loop flat1 rest bits (k + 1) = Inr flat'"
      and len: "length flat' = length flat1"
      and inside: "\<forall>p < length rest. flat' ! (rest ! p) =
           (if k + 1 + p < length bits then write2 (flat1 ! (rest ! p)) (bits ! (k + 1 + p))
            else flat1 ! (rest ! p))"
      and outside: "\<forall>s. s \<notin> set rest \<longrightarrow> flat' ! s = flat1 ! s"
      by auto
    have eq: "embed_loop flat (idx # rest) bits k = Inr flat'"
      using False idx run by (simp only: embed_loop_Cons flat1_def) simp
    have head: "flat' ! idx = write2 (flat ! idx) (bits ! k)"
      using outside notin idx by (simp add: flat1_def)
    have other: "flat1 ! s = flat ! s" if "s \<noteq> idx" for s
      using that by (simp add: flat1_def)
    have "flat' ! ((idx # rest) ! p) =
           (if k + p < length bits then write2 (flat ! ((idx # rest) ! p)) (bits ! (k + p))
            else flat ! ((idx # rest) ! p))" if p: "p < length (idx # rest)" for p
    proof (cases p)
      case 0
      then show ?thesis using head False by simp
    next
      case (Suc q)
      then have q: "q < length rest" using p by simp
      then have "rest ! q \<noteq> idx" using notin by (metis nth_mem)
      then show ?thesis using inside q Suc by (simp add: other)
    qed
    moreover have "flat' ! s = flat ! s" if "s \<notin> set (idx # rest)" for s
      using that outside by (simp add: other)
    ultimately show ?thesis
      using eq len len1 by (intro exI [of _ flat']) simp
  qed
qed

text \<open>
  Claim C7. The index sequence is a permutation of the slots (no slot twice, every index
  inside the array) and the capacity check has passed, so there are at least as many
  slots as bits. Then the loop ends without an exception; for each \<open>i < len(bits)\<close> the
  slot \<open>indices[i]\<close> has \<open>bits[i]\<close> in its second least significant bit and every
  other bit as in the cover; the slots \<open>indices[j]\<close> with \<open>j \<ge> len(bits)\<close> hold the
  cover's value.
\<close>

theorem embed_frame:
  assumes "distinct indices" and "\<forall>idx \<in> set indices. idx < length flat"
    and "length bits \<le> length indices" and "\<forall>b \<in> set bits. b \<le> 1"
  shows "\<exists>flat'. embed_loop flat indices bits 0 = Inr flat' \<and> length flat' = length flat
     \<and> (\<forall>i < length bits.
           bit (flat' ! (indices ! i)) 1 = (bits ! i = 1)
           \<and> (\<forall>n. n \<noteq> 1 \<longrightarrow> bit (flat' ! (indices ! i)) n = bit (flat ! (indices ! i)) n))
     \<and> (\<forall>j. length bits \<le> j \<and> j < length indices \<longrightarrow>
           flat' ! (indices ! j) = flat ! (indices ! j))"
proof -
  from embed_loop_inv [OF assms(1,2), of bits 0]
  obtain flat' where run: "embed_loop flat indices bits 0 = Inr flat'"
    and len: "length flat' = length flat"
    and inside: "\<forall>p < length indices. flat' ! (indices ! p) =
           (if p < length bits then write2 (flat ! (indices ! p)) (bits ! p)
            else flat ! (indices ! p))"
    by auto
  have "bit (flat' ! (indices ! i)) 1 = (bits ! i = 1)
        \<and> (\<forall>n. n \<noteq> 1 \<longrightarrow> bit (flat' ! (indices ! i)) n = bit (flat ! (indices ! i)) n)"
    if i: "i < length bits" for i
  proof -
    have "flat' ! (indices ! i) = write2 (flat ! (indices ! i)) (bits ! i)"
      using inside i assms(3) by simp
    moreover have "bits ! i \<le> 1" using assms(4) i by simp
    ultimately show ?thesis
      by (simp add: bit_write2_other bit_write2_second)
  qed
  moreover have "flat' ! (indices ! j) = flat ! (indices ! j)"
    if "length bits \<le> j \<and> j < length indices" for j
    using inside that by simp
  ultimately show ?thesis using run len by blast
qed

theorem embed_frame_witness:
  "distinct [2, 0, 3 :: nat] \<and> length [1, 0 :: nat] \<le> length [2, 0, 3 :: nat]
   \<and> (\<exists>flat'. embed_loop [5, 6, 7, 8] [2, 0, 3] [1, 0] 0 = Inr flat' \<and> length flat' = 4
        \<and> (\<forall>i < 2.
              bit (flat' ! ([2, 0, 3] ! i)) 1 = ([1, 0 :: nat] ! i = 1)
              \<and> (\<forall>n. n \<noteq> 1 \<longrightarrow>
                    bit (flat' ! ([2, 0, 3] ! i)) n = bit ([5, 6, 7, 8 :: byte] ! ([2, 0, 3] ! i)) n))
        \<and> (\<forall>j. 2 \<le> j \<and> j < 3 \<longrightarrow> flat' ! ([2, 0, 3] ! j) = [5, 6, 7, 8] ! ([2, 0, 3] ! j)))"
proof -
  have h1: "distinct [2, 0, 3 :: nat]" by simp
  have h2: "\<forall>idx \<in> set [2, 0, 3 :: nat]. idx < length [5, 6, 7, 8 :: byte]" by simp
  have h3: "length [1, 0 :: nat] \<le> length [2, 0, 3 :: nat]" by simp
  have h4: "\<forall>b \<in> set [1, 0 :: nat]. b \<le> 1" by simp
  show ?thesis
    using embed_frame [OF h1 h2 h3 h4] h1 by simp
qed

subsection \<open>The payload framer\<close>

lemma and_mask32: "(x :: 32 word) AND 0xffffffff = x"
proof -
  have "(0xffffffff :: 32 word) = - 1" by simp
  then show ?thesis by (simp only: and.right_neutral)
qed

lemma funpow8: "(f ^^ 8) x = f (f (f (f (f (f (f (f x)))))))"
  by (simp add: numeral_eq_Suc)

text \<open>The CRC-32 of \<open>b"hello"\<close>, one byte at a time.\<close>

lemma crc_update_hello:
  "crc_update 0xffffffff 0x68 = 0x6e94f918"
  "crc_update 0x6e94f918 0x65 = 0x2eda9978"
  "crc_update 0x2eda9978 0x6c = 0x1af40ee4"
  "crc_update 0x1af40ee4 0x6c = 0xe379ff1c"
  "crc_update 0xe379ff1c 0x6f = 0xc9ef5979"
  by (simp_all add: crc_update_def funpow8 crc_shift_def)

lemma crc_hello: "crc32 hello = 0x3610A686"
  by (simp add: crc32_def hello_def crc_update_hello)

lemma frame_hello:
  "be32 (length hello) @ be32 (unat (crc32 hello)) @ hello
     = [0, 0, 0, 5, 0x36, 0x10, 0xA6, 0x86, 0x68, 0x65, 0x6c, 0x6c, 0x6f]"
  by (simp add: crc_hello) (simp add: hello_def be32_def)

lemma length_pad: "length (pad d 16) = length d + (16 - length d mod 16)"
  by (simp add: pad_def Let_def)

lemma pad_whole_blocks: "length (pad d 16) mod 16 = 0"
  unfolding length_pad by presburger

lemma whole_blocks: "xs \<noteq> [] \<Longrightarrow> length xs mod 16 = 0 \<Longrightarrow> 16 \<le> length xs"
  by (cases xs) (auto simp: mod_eq_0_iff_dvd dest!: dvd_imp_le)

lemma unpad_bad: "bad_padding plain \<Longrightarrow> \<exists>e. unpad plain 16 = Inl e"
  by (auto simp: unpad_def bad_padding_def Let_def)

lemma unpad_good:
  assumes "\<not> bad_padding plain"
  shows "unpad plain 16 = Inr (take (length plain - unat (last plain)) plain)"
proof -
  have "16 \<le> length plain"
    using assms by (intro whole_blocks) (auto simp: bad_padding_def)
  then have "min 16 (length plain) = 16" by simp
  then show ?thesis
    using assms by (auto simp: unpad_def bad_padding_def Let_def)
qed

lemma unpad_pad: "unpad (pad d 16) 16 = Inr d"
proof -
  define p where "p = 16 - length d mod 16"
  have p: "1 \<le> p" "p \<le> 16" by (simp_all add: p_def)
  have padded: "pad d 16 = d @ replicate p (of_nat p)"
    by (simp add: pad_def p_def Let_def)
  have last: "last (pad d 16) = (of_nat p :: byte)"
    using p by (simp add: padded)
  have up: "unat (of_nat p :: byte) = p"
    using p by (simp add: unat_of_nat)
  have len: "length (pad d 16) = length d + p" by (simp add: padded)
  have m: "length (pad d 16) mod 16 = 0" by (rule pad_whole_blocks)
  show ?thesis
    unfolding unpad_def Let_def last up
    using p m by (simp add: len) (simp add: padded)
qed

lemma aes_decrypt_malformed:
  "padding_malformed (drop 16 raw) (plaintext L self raw) \<Longrightarrow>
   \<exists>e. aes_decrypt L self (take 16 raw) (drop 16 raw) = Inl e"
  unfolding padding_malformed_def
  by (cases "length (drop 16 raw) mod 16 = 0")
     (auto simp: aes_decrypt_def cbc_decrypt_def plaintext_def dest: unpad_bad)

lemma aes_decrypt_wellformed:
  "\<not> padding_malformed (drop 16 raw) (plaintext L self raw) \<Longrightarrow>
   aes_decrypt L self (take 16 raw) (drop 16 raw) =
     Inr (take (length (plaintext L self raw) - unat (last (plaintext L self raw)))
            (plaintext L self raw))"
  unfolding padding_malformed_def
  using unpad_good [of "plaintext L self raw"]
  by (auto simp: aes_decrypt_def cbc_decrypt_def plaintext_def)

lemma extract_data_decode: "extract_data L self raw = decode L self raw"
proof (cases "padding_malformed (drop 16 raw) (plaintext L self raw)")
  case True
  from aes_decrypt_malformed [OF True] obtain e
    where "aes_decrypt L self (take 16 raw) (drop 16 raw) = Inl e" ..
  then show ?thesis
    using True by (simp add: extract_data_def extract_data_try_def decode_def Let_def)
next
  case False
  show ?thesis
    using False
    by (simp add: extract_data_def extract_data_try_def aes_decrypt_wellformed [OF False]
          decode_def Let_def unpack_II_def and_mask32 drop_take)
qed

text \<open>
  Claim C4. \<open>_extract_data\<close> returns \<open>None\<close> exactly when the input has fewer than 16
  bytes, or the padding of the bytes after the first 16 is malformed, or fewer than 8
  bytes remain after the padding is removed, or the remaining bytes are shorter than 8
  plus the length field, or the CRC-32 of the payload differs from the checksum field;
  otherwise it returns the payload \<open>remaining[8:8+length]\<close>. Every failure is the one
  value \<open>None\<close>.
\<close>

theorem extract_data_cases:
  "extract_data L self raw =
     (let plain = plaintext L self raw;
          remaining = take (length plain - unat (last plain)) plain;
          len = from_bytes_big (take 4 remaining);
          checksum = from_bytes_big (take 4 (drop 4 remaining));
          payload = take len (drop 8 remaining)
      in if length raw < 16 \<or> padding_malformed (drop 16 raw) plain \<or> length remaining < 8
            \<or> length remaining < 8 + len \<or> unat (crc32 payload) \<noteq> checksum
         then None else Some payload)"
  using extract_data_decode [of L self raw] by (simp only: decode_def)

lemma sample_plain:
  "plaintext sample_lib (init sample_lib ''secure-pass-123'' 90)
     ([0, 0, 0, 0, 0, 0, 0, 0, 0, 0, 0, 0, 0, 0, 0, 0]
      @ [1, 1, 1, 6, 0x37, 0x11, 0xa7, 0x87, 0x69, 0x66, 0x6d, 0x6d, 0x70, 4, 4, 4])
   = [0, 0, 0, 5, 0x36, 0x10, 0xa6, 0x86, 0x68, 0x65, 0x6c, 0x6c, 0x6f, 3, 3, 3]"
  by (simp add: plaintext_def sample_lib_def xor_bytes_def)

theorem extract_data_cases_witness:
  "extract_data sample_lib (init sample_lib ''secure-pass-123'' 90)
     ([0, 0, 0, 0, 0, 0, 0, 0, 0, 0, 0, 0, 0, 0, 0, 0]
      @ [1, 1, 1, 6, 0x37, 0x11, 0xa7, 0x87, 0x69, 0x66, 0x6d, 0x6d, 0x70, 4, 4, 4])
   = Some hello"
proof -
  have crc: "crc32 [0x68, 0x65, 0x6c, 0x6c, 0x6f] = 0x3610A686"
    using crc_hello by (simp add: hello_def)
  have r: "replicate 3 (3 :: byte) = [3, 3, 3]"
    by (simp add: numeral_3_eq_3)
  show ?thesis
    unfolding extract_data_cases sample_plain Let_def
    by (simp add: padding_malformed_def bad_padding_def from_bytes_big_def crc hello_def r)
qed

lemma xor_bytes_cancel: "length a = length b \<Longrightarrow> xor_bytes (xor_bytes a b) b = a"
  unfolding xor_bytes_def
  by (induction a b rule: list_induct2) (simp_all add: xor.assoc)

lemma length_xor_bytes: "length (xor_bytes a b) = min (length a) (length b)"
  by (simp add: xor_bytes_def)

lemma length_cbc_enc_blocks:
  "block_cipher E D \<Longrightarrow> length prev = 16 \<Longrightarrow> 16 * n \<le> length pt \<Longrightarrow>
   length (cbc_enc_blocks E prev pt n) = 16 * n"
proof (induction n arbitrary: prev pt)
  case 0
  then show ?case by simp
next
  case (Suc n)
  have blk: "length (xor_bytes (take 16 pt) prev) = 16"
    using Suc.prems by (simp add: length_xor_bytes)
  then have c: "length (E (xor_bytes (take 16 pt) prev)) = 16"
    using Suc.prems(1) by (simp add: block_cipher_def)
  have "length (cbc_enc_blocks E (E (xor_bytes (take 16 pt) prev)) (drop 16 pt) n) = 16 * n"
    using Suc.prems c by (intro Suc.IH) simp_all
  then show ?case using c by (simp add: Let_def)
qed

text \<open>CBC decryption undoes CBC encryption on whole blocks.\<close>

lemma cbc_dec_enc_blocks:
  "block_cipher E D \<Longrightarrow> length prev = 16 \<Longrightarrow> length pt = 16 * n \<Longrightarrow>
   cbc_dec_blocks D prev (cbc_enc_blocks E prev pt n) n = pt"
proof (induction n arbitrary: prev pt)
  case 0
  then show ?case by simp
next
  case (Suc n)
  define x where "x = xor_bytes (take 16 pt) prev"
  define c where "c = E x"
  have lx: "length x = 16" using Suc.prems by (simp add: x_def length_xor_bytes)
  then have lc: "length c = 16" and dc: "D c = x"
    using Suc.prems(1) by (simp_all add: block_cipher_def c_def)
  have rest: "cbc_dec_blocks D c (cbc_enc_blocks E c (drop 16 pt) n) n = drop 16 pt"
    using Suc.prems lc by (intro Suc.IH) simp_all
  have first: "xor_bytes x prev = take 16 pt"
    unfolding x_def using Suc.prems by (intro xor_bytes_cancel) simp
  have "cbc_dec_blocks D prev (cbc_enc_blocks E prev pt (Suc n)) (Suc n)
          = xor_bytes (D c) prev @ cbc_dec_blocks D c (cbc_enc_blocks E c (drop 16 pt) n) n"
    using lc by (simp add: Let_def x_def [symmetric] c_def [symmetric])
  also have "\<dots> = take 16 pt @ drop 16 pt"
    by (simp add: rest dc first)
  finally show ?case by simp
qed

lemma aes_decrypt_encrypt:
  assumes "block_cipher (aes_enc L (key self)) (aes_dec L (key self))" and "length iv = 16"
  shows "\<exists>ct. aes_encrypt L self iv d = Inr (iv, ct) \<and> length ct = length (pad d 16)
           \<and> cbc_encrypt (aes_enc L (key self)) iv (pad d 16) = Inr ct
           \<and> aes_decrypt L self iv ct = Inr d"
proof -
  define n where "n = length (pad d 16) div 16"
  have len: "length (pad d 16) = 16 * n"
    using pad_whole_blocks [of d] by (auto simp: n_def)
  define ct where "ct = cbc_enc_blocks (aes_enc L (key self)) iv (pad d 16) n"
  have lct: "length ct = 16 * n"
    unfolding ct_def using assms len by (intro length_cbc_enc_blocks) simp_all
  have enc: "cbc_encrypt (aes_enc L (key self)) iv (pad d 16) = Inr ct"
    by (simp add: cbc_encrypt_def pad_whole_blocks ct_def n_def)
  have "cbc_dec_blocks (aes_dec L (key self)) iv ct n = pad d 16"
    unfolding ct_def using assms len by (intro cbc_dec_enc_blocks)
  then have "aes_decrypt L self iv ct = Inr d"
    by (simp add: aes_decrypt_def cbc_decrypt_def lct unpad_pad)
  then show ?thesis
    using enc lct len by (simp add: aes_encrypt_def)
qed

lemma prepare_data_Inr:
  assumes "length payload < 4294967296" and "length iv = 16"
    and "block_cipher (aes_enc L (key self)) (aes_dec L (key self))"
  shows "\<exists>ct. prepare_data L self iv payload = Inr (iv @ ct)
     \<and> length ct = length (pad (be32 (length payload) @ be32 (unat (crc32 payload)) @ payload) 16)
     \<and> cbc_encrypt (aes_enc L (key self)) iv
          (pad (be32 (length payload) @ be32 (unat (crc32 payload)) @ payload) 16) = Inr ct
     \<and> aes_decrypt L self iv ct
          = Inr (be32 (length payload) @ be32 (unat (crc32 payload)) @ payload)"
proof -
  have crc: "unat (crc32 payload) < 4294967296"
    using unsigned_less [of "crc32 payload", where 'a = nat] by simp
  from aes_decrypt_encrypt [OF assms(3,2),
      of "be32 (length payload) @ be32 (unat (crc32 payload)) @ payload"]
  obtain ct where
    "aes_encrypt L self iv (be32 (length payload) @ be32 (unat (crc32 payload)) @ payload)
       = Inr (iv, ct)"
    and "length ct
       = length (pad (be32 (length payload) @ be32 (unat (crc32 payload)) @ payload) 16)"
    and "cbc_encrypt (aes_enc L (key self)) iv
          (pad (be32 (length payload) @ be32 (unat (crc32 payload)) @ payload) 16) = Inr ct"
    and "aes_decrypt L self iv ct
       = Inr (be32 (length payload) @ be32 (unat (crc32 payload)) @ payload)"
    by blast
  then show ?thesis
    using assms(1) crc by (simp add: prepare_data_def pack_II_def and_mask32 Let_def)
qed

lemma sample_block_cipher: "block_cipher (aes_enc sample_lib k) (aes_dec sample_lib k)"
  by (simp add: block_cipher_def sample_lib_def comp_def)

text \<open>
  Claim C3, for payloads whose length fits the 32-bit length field. \<open>_prepare_data\<close>
  returns the 16 bytes of the IV followed by the AES-CBC encryption, under that IV, of
  the PKCS7-padded bytes \<open>length (4 bytes, big-endian) || CRC-32 (4 bytes, big-endian) ||
  payload\<close>; decrypting and unpadding the ciphertext gives these bytes back. For
  \<open>b"hello"\<close> they are \<open>00 00 00 05\<close>, \<open>36 10 a6 86\<close> and the five bytes of the payload.
\<close>

theorem prepare_data_format:
  assumes "length payload < 4294967296" and "length iv = 16"
    and "block_cipher (aes_enc L (key self)) (aes_dec L (key self))"
  shows "\<exists>raw. prepare_data L self iv payload = Inr raw
     \<and> take 16 raw = iv
     \<and> cbc_encrypt (aes_enc L (key self)) iv
          (pad (be32 (length payload) @ be32 (unat (crc32 payload)) @ payload) 16)
        = Inr (drop 16 raw)
     \<and> aes_decrypt L self (take 16 raw) (drop 16 raw)
          = Inr (be32 (length payload) @ be32 (unat (crc32 payload)) @ payload)
     \<and> be32 (length hello) @ be32 (unat (crc32 hello)) @ hello
          = [0, 0, 0, 5, 0x36, 0x10, 0xA6, 0x86, 0x68, 0x65, 0x6c, 0x6c, 0x6f]"
proof -
  from prepare_data_Inr [OF assms] obtain ct
    where "prepare_data L self iv payload = Inr (iv @ ct)"
      and "cbc_encrypt (aes_enc L (key self)) iv
          (pad (be32 (length payload) @ be32 (unat (crc32 payload)) @ payload) 16) = Inr ct"
      and "aes_decrypt L self iv ct
          = Inr (be32 (length payload) @ be32 (unat (crc32 payload)) @ payload)"
    by blast
  then show ?thesis
    using assms(2) frame_hello by simp
qed

theorem prepare_data_format_witness:
  "\<exists>raw. prepare_data sample_lib (init sample_lib ''secure-pass-123'' 90)
            [0, 0, 0, 0, 0, 0, 0, 0, 0, 0, 0, 0, 0, 0, 0, 0] hello = Inr raw
     \<and> take 16 raw = [0, 0, 0, 0, 0, 0, 0, 0, 0, 0, 0, 0, 0, 0, 0, 0]
     \<and> aes_decrypt sample_lib (init sample_lib ''secure-pass-123'' 90) (take 16 raw) (drop 16 raw)
          = Inr [0, 0, 0, 5, 0x36, 0x10, 0xA6, 0x86, 0x68, 0x65, 0x6c, 0x6c, 0x6f]"
proof -
  have h1: "length hello < 4294967296" by (simp add: hello_def)
  have h2: "length [0, 0, 0, 0, 0, 0, 0, 0, 0, 0, 0, 0, 0, 0, 0, 0 :: byte] = 16" by simp
  from prepare_data_format [OF h1 h2 sample_block_cipher,
      where self = "init sample_lib ''secure-pass-123'' 90"]
  obtain raw where
    "prepare_data sample_lib (init sample_lib ''secure-pass-123'' 90)
       [0, 0, 0, 0, 0, 0, 0, 0, 0, 0, 0, 0, 0, 0, 0, 0] hello = Inr raw"
    and "take 16 raw = [0, 0, 0, 0, 0, 0, 0, 0, 0, 0, 0, 0, 0, 0, 0, 0]"
    and "aes_decrypt sample_lib (init sample_lib ''secure-pass-123'' 90) (take 16 raw) (drop 16 raw)
          = Inr [0, 0, 0, 5, 0x36, 0x10, 0xA6, 0x86, 0x68, 0x65, 0x6c, 0x6c, 0x6f]"
    by auto
  then show ?thesis by blast
qed

text \<open>
  A payload of \<open>2^32\<close> bytes has no 32-bit length: \<open>struct.pack\<close> raises and
  \<open>_prepare_data\<close> returns nothing.
\<close>

theorem prepare_data_long_payload:
  "prepare_data sample_lib (init sample_lib ''secure-pass-123'' 90)
     [0, 0, 0, 0, 0, 0, 0, 0, 0, 0, 0, 0, 0, 0, 0, 0] (replicate 4294967296 0) = Inl StructError"
  by (simp add: prepare_data_def pack_II_def Let_def)

subsection \<open>The permutation generator\<close>

lemma shuffle_perm:
  "i < length xs \<Longrightarrow>
   length (fst (shuffle g xs i)) = length xs
   \<and> set (fst (shuffle g xs i)) = set xs
   \<and> distinct (fst (shuffle g xs i)) = distinct xs"
proof (induction i arbitrary: g xs)
  case 0
  then show ?case by simp
next
  case (Suc i)
  define j where "j = rng_next g mod Suc (Suc i)"
  define ys where "ys = xs[Suc i := xs ! j, j := xs ! Suc i]"
  have "j < Suc (Suc i)" by (simp add: j_def)
  then have j: "j < length xs" using Suc.prems by simp
  have len: "length ys = length xs" by (simp add: ys_def)
  have same: "set ys = set xs" "distinct ys = distinct xs"
    unfolding ys_def using j Suc.prems by (simp_all add: set_swap distinct_swap)
  have "i < length ys" using Suc.prems len by simp
  from Suc.IH [OF this, of "rng_next g"]
  show ?case
    by (simp add: Let_def j_def [symmetric] ys_def [symmetric] len same)
qed

lemma np_permutation_perm:
  "length (fst (np_permutation g n)) = n
   \<and> set (fst (np_permutation g n)) = {..<n}
   \<and> distinct (fst (np_permutation g n))"
proof (cases n)
  case 0
  then show ?thesis by (simp add: np_permutation_def)
next
  case (Suc m)
  have "m < length [0..<Suc m]" by simp
  from shuffle_perm [OF this, of g] show ?thesis
    by (simp add: np_permutation_def Suc lessThan_atLeast0 del: upt_Suc)
qed

text \<open>
  Claim C8, on the generator modelled from the specification. Seeding with
  \<open>seed % 2^32\<close> and then drawing a permutation of \<open>N\<close> gives a sequence of length
  \<open>N\<close> that holds every index below \<open>N\<close> once; the sequence depends on the seed and on
  \<open>N\<close> only, not on the generator state the call finds; and the embedding and the
  extraction path compute the same sequence for the same object and slot count.
\<close>

theorem permutation_deterministic:
  "length (fst (embed_indices self w n)) = n
   \<and> set (fst (embed_indices self w n)) = {..<n}
   \<and> distinct (fst (embed_indices self w n))
   \<and> fst (embed_indices self w n) = fst (np_permutation (np_seed (seed self mod 2 ^ 32)) n)
   \<and> embed_indices self w n = embed_indices self w' n
   \<and> extract_indices self w' n = embed_indices self w n"
  using np_permutation_perm [of "np_seed (seed self mod 2 ^ 32)" n]
  by (simp add: embed_indices_def extract_indices_def)

theorem permutation_deterministic_witness:
  "length (fst (embed_indices (init sample_lib ''secure-pass-123'' 90) sample_world 30000)) = 30000
   \<and> distinct (fst (embed_indices (init sample_lib ''secure-pass-123'' 90) sample_world 30000))
   \<and> extract_indices (init sample_lib ''secure-pass-123'' 90) (sample_world\<lparr>rng := 7\<rparr>) 30000
       = embed_indices (init sample_lib ''secure-pass-123'' 90) sample_world 30000"
  using permutation_deterministic
    [of "init sample_lib ''secure-pass-123'' 90" sample_world 30000 "sample_world\<lparr>rng := 7\<rparr>"]
  by (elim conjE, intro conjI) assumption+

subsection \<open>Key derivation\<close>

lemma from_bytes_big_snoc: "from_bytes_big (bs @ [b]) = from_bytes_big bs * 256 + unat b"
  by (simp add: from_bytes_big_def)

lemma from_bytes_big_less: "from_bytes_big bs < 256 ^ length bs"
proof (induction bs rule: rev_induct)
  case Nil
  then show ?case by (simp add: from_bytes_big_def)
next
  case (snoc b bs)
  have "unat b < 256" using unsigned_less [of b, where 'a = nat] by simp
  then have "from_bytes_big bs * 256 + unat b < (from_bytes_big bs + 1) * 256" by simp
  also have "\<dots> \<le> 256 ^ length bs * 256"
    using snoc.IH by (intro mult_le_mono1) simp
  finally show ?case by (simp add: from_bytes_big_snoc)
qed

lemma from_bytes_big_take8: "from_bytes_big (take 8 bs) < 2 ^ 64"
proof -
  have "from_bytes_big (take 8 bs) < 256 ^ length (take 8 bs)"
    by (rule from_bytes_big_less)
  also have "\<dots> \<le> (256 :: nat) ^ 8"
    by (intro power_increasing) simp_all
  finally show ?thesis by simp
qed

text \<open>
  Claim C9. For every password, the empty one included, \<open>__init__\<close> sets the key to
  PBKDF2-HMAC-SHA256 of the password bytes with the salt \<open>F5StegoSalt\<close>, 100000
  iterations and 32 bytes of output, and the seed to the first 8 bytes of the SHA-256 of
  the password bytes read as a big-endian number; both paths hand the seed to the
  generator reduced modulo \<open>2^32\<close>.
\<close>

theorem key_derivation:
  "key (init L pw q) = pbkdf2_hmac_sha256 L (encode pw) (encode ''F5StegoSalt'') 100000 32
   \<and> seed (init L pw q) = from_bytes_big (take 8 (sha256 L (encode pw)))
   \<and> embed_indices (init L pw q) w n
       = np_permutation (np_seed (from_bytes_big (take 8 (sha256 L (encode pw))) mod 2 ^ 32)) n
   \<and> extract_indices (init L pw q) w n
       = np_permutation (np_seed (from_bytes_big (take 8 (sha256 L (encode pw))) mod 2 ^ 32)) n
   \<and> from_bytes_big (take 8 (sha256 L (encode pw))) < 2 ^ 64"
  using from_bytes_big_take8 [of "sha256 L (encode pw)"]
  by (simp add: init_def embed_indices_def extract_indices_def)

theorem key_derivation_witness:
  "key (init sample_lib [] 90)
     = pbkdf2_hmac_sha256 sample_lib (encode []) (encode ''F5StegoSalt'') 100000 32
   \<and> seed (init sample_lib [] 90) = from_bytes_big (take 8 (sha256 sample_lib (encode [])))
   \<and> extract_indices (init sample_lib [] 90) sample_world 30000
       = np_permutation
           (np_seed (from_bytes_big (take 8 (sha256 sample_lib (encode []))) mod 2 ^ 32)) 30000"
  using key_derivation [of sample_lib "[]" 90 sample_world 30000]
  by (elim conjE, intro conjI) assumption+

subsection \<open>The capacity check\<close>

lemma length_bits: "length (ecc_data (binary_data prepared)) = 8 * length prepared * 2"
  by (simp add: length_ecc_data length_binary_data)

text \<open>
  Claim C5. When the prepared bytes need more bits than the carrier has slots,
  \<open>embed_fallback\<close> returns the capacity failure and leaves the world as it found it: no
  file is written, the cover file is untouched and the generator is not even seeded.
\<close>

theorem capacity_error:
  assumes "prepare_data L self iv secret_data = Inr prepared"
    and "files w cover_path = Some img"
    and "8 * length prepared * 2 > width img * height img * 3"
  shows "embed_fallback L self iv w cover_path secret_data output_path =
           ((False, ''Insufficient capacity: need '' @ show_nat (8 * length prepared * 2)
                    @ '' bits, have '' @ show_nat (width img * height img * 3)), w)"
  using assms
  by (simp add: embed_fallback_def embed_fallback_try_def image_open_def length_bits Let_def)

lemma show_nat_32512: "show_nat 32512 = ''32512''"
  by (simp add: show_nat.simps)

lemma show_nat_30000: "show_nat 30000 = ''30000''"
  by (simp add: show_nat.simps)

theorem capacity_error_witness:
  "embed_fallback sample_lib (init sample_lib ''secure-pass-123'' 90)
     [0, 0, 0, 0, 0, 0, 0, 0, 0, 0, 0, 0, 0, 0, 0, 0] sample_world ''cover.jpg''
     (replicate 2000 0) ''stego.jpg''
   = ((False, ''Insufficient capacity: need 32512 bits, have 30000''), sample_world)"
proof -
  have h1: "length (replicate 2000 (0 :: byte)) < 4294967296" by simp
  have h2: "length [0, 0, 0, 0, 0, 0, 0, 0, 0, 0, 0, 0, 0, 0, 0, 0 :: byte] = 16" by simp
  from prepare_data_Inr [OF h1 h2 sample_block_cipher,
      where self = "init sample_lib ''secure-pass-123'' 90"]
  obtain ct where prep: "prepare_data sample_lib (init sample_lib ''secure-pass-123'' 90)
       [0, 0, 0, 0, 0, 0, 0, 0, 0, 0, 0, 0, 0, 0, 0, 0] (replicate 2000 0)
       = Inr ([0, 0, 0, 0, 0, 0, 0, 0, 0, 0, 0, 0, 0, 0, 0, 0] @ ct)"
    and len: "length ct = 2016"
    by (auto simp: length_pad be32_def)
  have cover: "files sample_world ''cover.jpg'' = Some sample_cover"
    by (simp add: sample_world_def)
  have big: "8 * length ([0, 0, 0, 0, 0, 0, 0, 0, 0, 0, 0, 0, 0, 0, 0, 0 :: byte] @ ct) * 2
               > width sample_cover * height sample_cover * 3"
    by (simp add: len sample_cover_def)
  show ?thesis
    using capacity_error [OF prep cover big, of "''stego.jpg''"]
    by (simp add: len sample_cover_def show_nat_32512 show_nat_30000)
qed

subsection \<open>Exceptions of the fallback interface\<close>

lemma try_offsets_Some:
  "try_offsets L self bs offsets = Inr (Some d) \<Longrightarrow>
   d \<noteq> [] \<and> (\<exists>offset \<in> set offsets. \<exists>raw.
      to_bytes (bytes_list bs offset) = Inr raw \<and> extract_data L self raw = Some d)"
  by (induction offsets) (auto split: sum.splits option.splits if_splits)

lemma embed_fallback_True:
  assumes "fst (fst (embed_fallback L self iv w cover_path secret_data output_path))"
  shows "fst (embed_fallback L self iv w cover_path secret_data output_path)
           = (True, ''Fallback embedding successful - Embedded '' @ show_nat (length secret_data)
                    @ '' bytes'')
         \<and> files (snd (embed_fallback L self iv w cover_path secret_data output_path)) output_path
             \<noteq> None"
  using assms
  by (auto simp: embed_fallback_def embed_fallback_try_def image_save_def Let_def
        split: sum.splits prod.splits if_splits)

lemma extract_fallback_Some:
  assumes "fst (fst (extract_fallback L self w stego_path)) = Some d"
  shows "d \<noteq> [] \<and> fst (extract_fallback L self w stego_path)
           = (Some d, ''Fallback extraction successful'')"
  using assms
  by (auto simp: extract_fallback_def extract_fallback_try_def Let_def
        dest: try_offsets_Some split: sum.splits prod.splits option.splits)

text \<open>
  Claim C10. \<open>embed_fallback\<close> and \<open>extract_fallback\<close> return a pair on every input:
  an exception raised inside their \<open>try\<close> block becomes the failure pair with the
  message of the exception, anything else is returned as it is. A path with no readable
  image gives a failure pair from both. A first component \<open>True\<close> comes only with the
  success message and a written output file, a payload only non-empty and with the
  success message of the extraction.
\<close>

theorem fallback_total:
  "(\<forall>e w'. embed_fallback_try L self iv w cover_path secret_data output_path = (Inl e, w') \<longrightarrow>
      embed_fallback L self iv w cover_path secret_data output_path
        = ((False, ''Fallback embedding failed: '' @ str_exn e), w'))
   \<and> (\<forall>r w'. embed_fallback_try L self iv w cover_path secret_data output_path = (Inr r, w') \<longrightarrow>
      embed_fallback L self iv w cover_path secret_data output_path = (r, w'))
   \<and> (\<forall>e w'. extract_fallback_try L self w stego_path = (Inl e, w') \<longrightarrow>
      extract_fallback L self w stego_path
        = ((None, ''Fallback extraction failed: '' @ str_exn e), w'))
   \<and> (\<forall>r w'. extract_fallback_try L self w stego_path = (Inr r, w') \<longrightarrow>
      extract_fallback L self w stego_path = (r, w'))
   \<and> (files w stego_path = None \<longrightarrow>
      extract_fallback L self w stego_path
        = ((None, ''Fallback extraction failed: cannot open image file''), w))
   \<and> (files w cover_path = None \<longrightarrow>
      (\<exists>m. embed_fallback L self iv w cover_path secret_data output_path = ((False, m), w)))
   \<and> (fst (fst (embed_fallback L self iv w cover_path secret_data output_path)) \<longrightarrow>
      fst (embed_fallback L self iv w cover_path secret_data output_path)
        = (True, ''Fallback embedding successful - Embedded '' @ show_nat (length secret_data)
                 @ '' bytes'')
      \<and> files (snd (embed_fallback L self iv w cover_path secret_data output_path)) output_path
          \<noteq> None)
   \<and> (\<forall>d. fst (fst (extract_fallback L self w stego_path)) = Some d \<longrightarrow>
      d \<noteq> [] \<and> fst (extract_fallback L self w stego_path)
                  = (Some d, ''Fallback extraction successful''))"
proof -
  have "(\<forall>e w'. embed_fallback_try L self iv w cover_path secret_data output_path = (Inl e, w') \<longrightarrow>
      embed_fallback L self iv w cover_path secret_data output_path
        = ((False, ''Fallback embedding failed: '' @ str_exn e), w'))
   \<and> (\<forall>r w'. embed_fallback_try L self iv w cover_path secret_data output_path = (Inr r, w') \<longrightarrow>
      embed_fallback L self iv w cover_path secret_data output_path = (r, w'))
   \<and> (\<forall>e w'. extract_fallback_try L self w stego_path = (Inl e, w') \<longrightarrow>
      extract_fallback L self w stego_path
        = ((None, ''Fallback extraction failed: '' @ str_exn e), w'))
   \<and> (\<forall>r w'. extract_fallback_try L self w stego_path = (Inr r, w') \<longrightarrow>
      extract_fallback L self w stego_path = (r, w'))
   \<and> (files w stego_path = None \<longrightarrow>
      extract_fallback L self w stego_path
        = ((None, ''Fallback extraction failed: cannot open image file''), w))
   \<and> (files w cover_path = None \<longrightarrow>
      (\<exists>m. embed_fallback L self iv w cover_path secret_data output_path = ((False, m), w)))"
    by (auto simp: embed_fallback_def extract_fallback_def embed_fallback_try_def
          extract_fallback_try_def image_open_def split: sum.splits)
  then show ?thesis
    using embed_fallback_True [of L self iv w cover_path secret_data output_path]
      extract_fallback_Some [of L self w stego_path]
    by blast
qed

theorem fallback_total_witness:
  "extract_fallback sample_lib (init sample_lib ''secure-pass-123'' 90) sample_world ''missing.jpg''
     = ((None, ''Fallback extraction failed: cannot open image file''), sample_world)
   \<and> (\<exists>m. embed_fallback sample_lib (init sample_lib ''secure-pass-123'' 90)
            [0, 0, 0, 0, 0, 0, 0, 0, 0, 0, 0, 0, 0, 0, 0, 0] sample_world ''missing.jpg''
            hello ''stego.jpg'' = ((False, m), sample_world))"
proof -
  have "files sample_world ''missing.jpg'' = None"
    by (simp add: sample_world_def)
  then show ?thesis
    using fallback_total [of sample_lib "init sample_lib ''secure-pass-123'' 90"
        "[0, 0, 0, 0, 0, 0, 0, 0, 0, 0, 0, 0, 0, 0, 0, 0]" sample_world "''missing.jpg''"
        hello "''stego.jpg''" "''missing.jpg''"]
    by blast
qed

subsection \<open>Extraction after embedding\<close>

lemma error_corrected_bits_le1: "x \<in> set (error_corrected_bits ex i) \<Longrightarrow> x \<le> 1"
proof (induction ex i rule: error_corrected_bits.induct)
  case (1 ex i)
  then show ?case
    by (subst (asm) error_corrected_bits.simps) (auto simp: Let_def split: if_splits)
qed

lemma length_error_corrected_bits:
  "length (error_corrected_bits ex i) = (length ex - i) div 2"
proof (induction ex i rule: error_corrected_bits.induct)
  case (1 ex i)
  show ?case
  proof (cases "i + 2 \<le> length ex")
    case True
    then have "length (error_corrected_bits ex (i + 2)) = (length ex - (i + 2)) div 2"
      using 1 by simp
    moreover have "(length ex - i) div 2 = Suc ((length ex - (i + 2)) div 2)"
      using True by (simp add: le_div_geq)
    ultimately show ?thesis
      using True by (subst error_corrected_bits.simps) (simp add: Let_def)
  next
    case False
    then have "(length ex - i) div 2 = 0" by simp
    then show ?thesis
      using False by (subst error_corrected_bits.simps) simp
  qed
qed

lemma length_bytes_list: "length (bytes_list bs i) = (length bs - i) div 8"
proof (induction bs i rule: bytes_list.induct)
  case (1 bs i)
  show ?case
  proof (cases "i + 8 \<le> length bs")
    case True
    then have "length (bytes_list bs (i + 8)) = (length bs - (i + 8)) div 8"
      using 1 by simp
    moreover have "(length bs - i) div 8 = Suc ((length bs - (i + 8)) div 8)"
      using True by (simp add: le_div_geq)
    ultimately show ?thesis
      using True by (subst bytes_list.simps) simp
  next
    case False
    then have "(length bs - i) div 8 = 0" by simp
    then show ?thesis
      using False by (subst bytes_list.simps) simp
  qed
qed

lemma shift_or_bit: "a < 2 ^ k \<Longrightarrow> b \<le> 1 \<Longrightarrow> push_bit 1 a OR b < (2 :: nat) ^ Suc k"
proof -
  assume a: "a < 2 ^ k" and b: "b \<le> 1"
  have one: "(2 * a) OR (1 :: nat) = 2 * a + 1"
    using or_one_eq [of "2 * a"] by simp
  have "b = 0 \<or> b = 1" using b by auto
  then have "push_bit 1 a OR b \<le> 2 * a + 1"
  proof
    assume "b = 0"
    then show ?thesis by simp
  next
    assume "b = 1"
    then show ?thesis using one by (simp add: mult.commute)
  qed
  also have "\<dots> < 2 * 2 ^ k" using a by simp
  finally show ?thesis by simp
qed

lemma foldl_shift_or:
  "a < 2 ^ k \<Longrightarrow> \<forall>j \<in> set js. f j \<le> 1 \<Longrightarrow>
   foldl (\<lambda>byte j. push_bit 1 byte OR f j) a js < (2 :: nat) ^ (k + length js)"
proof (induction js arbitrary: a k)
  case Nil
  then show ?case by simp
next
  case (Cons j js)
  have "push_bit 1 a OR f j < 2 ^ Suc k"
    using Cons.prems by (intro shift_or_bit) simp_all
  from Cons.IH [OF this] Cons.prems(2) show ?case by simp
qed

lemma byte_at_less:
  assumes "i + 8 \<le> length bs" and "\<forall>x \<in> set bs. x \<le> 1"
  shows "byte_at bs i < 256"
proof -
  have "\<forall>j \<in> set [0..<8]. bs ! (i + j) \<le> 1"
    using assms by simp
  from foldl_shift_or [of 0 0 "[0..<8]" "\<lambda>j. bs ! (i + j)", OF _ this]
  show ?thesis by (simp add: byte_at_def)
qed

lemma bytes_list_less:
  "\<forall>x \<in> set bs. x \<le> 1 \<Longrightarrow> n \<in> set (bytes_list bs i) \<Longrightarrow> n < 256"
proof (induction bs i rule: bytes_list.induct)
  case (1 bs i)
  show ?case
  proof (cases "i + 8 \<le> length bs")
    case True
    then have "n = byte_at bs i \<or> n \<in> set (bytes_list bs (i + 8))"
      using "1.prems"(2) by (subst (asm) bytes_list.simps) simp
    then show ?thesis
      using 1 True byte_at_less by auto
  next
    case False
    then show ?thesis
      using "1.prems"(2) by (subst (asm) bytes_list.simps) simp
  qed
qed

lemma to_bytes_bytes_list:
  assumes "\<forall>x \<in> set bs. x \<le> 1"
  shows "to_bytes (bytes_list bs i) = Inr (map of_nat (bytes_list bs i))"
proof -
  have "\<forall>n \<in> set (bytes_list bs i). n < 256"
    using bytes_list_less [OF assms] by blast
  then show ?thesis by (simp add: to_bytes_def)
qed

text \<open>
  The decoder rejects every input that is not a whole number of blocks: the bytes after
  the IV go to the cipher as they are.
\<close>

lemma extract_data_partial_block:
  assumes "length raw mod 16 \<noteq> 0"
  shows "extract_data L self raw = None"
proof (cases "length raw < 16")
  case True
  then show ?thesis by (simp add: extract_data_def)
next
  case False
  then have "(length raw - 16) mod 16 \<noteq> 0"
    using assms by presburger
  then show ?thesis
    by (simp add: extract_data_decode decode_def padding_malformed_def Let_def)
qed

lemma try_offsets_partial_blocks:
  assumes "\<forall>x \<in> set bs. x \<le> 1"
    and "\<forall>offset \<in> set offsets. ((length bs - offset) div 8) mod 16 \<noteq> 0"
  shows "try_offsets L self bs offsets = Inr None"
  using assms(2)
proof (induction offsets)
  case Nil
  then show ?case by simp
next
  case (Cons offset offsets)
  have "length (map of_nat (bytes_list bs offset) :: byte list) mod 16 \<noteq> 0"
    using Cons.prems by (simp add: length_bytes_list)
  then have "extract_data L self (map of_nat (bytes_list bs offset)) = None"
    by (rule extract_data_partial_block)
  then show ?case
    using Cons by (simp add: to_bytes_bytes_list [OF assms(1)])
qed

lemma extracted_bits_Inr:
  "\<forall>idx \<in> set indices. idx < length flat \<Longrightarrow>
   \<exists>ex. extracted_bits flat indices = Inr ex \<and> length ex = length indices"
  by (induction indices) auto

text \<open>
  Extraction from an image whose slot count leaves a partial block at every alignment
  finds nothing, whatever the pixels hold.
\<close>

lemma extract_fallback_partial_blocks:
  assumes "files w stego_path = Some img" and "wf_image img"
    and "\<forall>offset < 8. ((width img * height img * 3 div 2 - offset) div 8) mod 16 \<noteq> 0"
  shows "fst (extract_fallback L self w stego_path)
           = (None, ''No valid data found in fallback extraction'')"
proof -
  define n where "n = width img * height img * 3"
  obtain indices g where ind: "extract_indices self w n = (indices, g)"
    by (cases "extract_indices self w n")
  have perm: "length indices = n" "set indices = {..<n}"
    using np_permutation_perm [of "np_seed (seed self mod 2 ^ 32)" n] ind
    by (simp_all add: extract_indices_def)
  have "\<forall>idx \<in> set indices. idx < length (pixels img)"
    using perm assms(2) by (simp add: wf_image_def n_def)
  from extracted_bits_Inr [OF this]
  obtain ex where ex: "extracted_bits (pixels img) indices = Inr ex" "length ex = n"
    using perm by auto
  define bs where "bs = error_corrected_bits ex 0"
  have bits: "\<forall>x \<in> set bs. x \<le> 1"
    by (auto simp: bs_def dest: error_corrected_bits_le1)
  have len: "length bs = n div 2"
    by (simp add: bs_def length_error_corrected_bits ex)
  have "\<forall>offset \<in> set [0..<8]. ((length bs - offset) div 8) mod 16 \<noteq> 0"
    using assms(3) by (simp add: len n_def)
  from try_offsets_partial_blocks [OF bits this]
  have "try_offsets L self bs [0..<8] = Inr None" .
  then show ?thesis
    using assms(1) ind ex
    by (simp add: extract_fallback_def extract_fallback_try_def image_open_def
          n_def [symmetric] bs_def [symmetric] Let_def)
qed

lemma embed_fallback_success:
  assumes "files w cover_path = Some img" and "wf_image img" and "writable w output_path"
    and "prepare_data L self iv secret_data = Inr prepared"
    and "8 * length prepared * 2 \<le> width img * height img * 3"
  shows "\<exists>flat g. length flat = length (pixels img)
     \<and> embed_fallback L self iv w cover_path secret_data output_path =
         ((True, ''Fallback embedding successful - Embedded '' @ show_nat (length secret_data)
                 @ '' bytes''),
          w\<lparr>rng := g,
            files := (files w)(output_path \<mapsto> jpeg L (quality self) (img\<lparr>pixels := flat\<rparr>))\<rparr>)"
proof -
  define n where "n = width img * height img * 3"
  define bits where "bits = ecc_data (binary_data prepared)"
  obtain indices g where ind: "embed_indices self w n = (indices, g)"
    by (cases "embed_indices self w n")
  have perm: "distinct indices" "set indices = {..<n}"
    using np_permutation_perm [of "np_seed (seed self mod 2 ^ 32)" n] ind
    by (simp_all add: embed_indices_def)
  have inside: "\<forall>idx \<in> set indices. idx < length (pixels img)"
    using perm assms(2) by (simp add: wf_image_def n_def)
  from embed_loop_inv [OF perm(1) inside, of bits 0]
  obtain flat where flat: "embed_loop (pixels img) indices bits 0 = Inr flat"
    and len: "length flat = length (pixels img)"
    by blast
  have fits: "\<not> length bits > n"
    using assms(5) by (simp add: bits_def length_bits n_def)
  have "embed_fallback L self iv w cover_path secret_data output_path =
         ((True, ''Fallback embedding successful - Embedded '' @ show_nat (length secret_data)
                 @ '' bytes''),
          w\<lparr>rng := g,
            files := (files w)(output_path \<mapsto> jpeg L (quality self) (img\<lparr>pixels := flat\<rparr>))\<rparr>)"
    using assms(1,3,4) ind flat fits
    by (simp add: embed_fallback_def embed_fallback_try_def image_open_def image_save_def
          n_def [symmetric] bits_def [symmetric] Let_def)
  then show ?thesis using len by blast
qed

text \<open>
  Claim C1 fails on the code. The embedding succeeds, and the extraction from the image
  it wrote returns no payload whenever the slot count of the carrier leaves a partial
  block at each of the eight alignments: \<open>extract_fallback\<close> decodes all \<open>N\<close> slots and
  hands every byte after the IV to the cipher, which rejects a length that is not a
  multiple of 16. This holds for every codec that keeps the size of the raster, the
  lossless one included.
\<close>

theorem roundtrip_lost:
  assumes "files w cover_path = Some img" and "wf_image img" and "writable w output_path"
    and "prepare_data L self iv secret_data = Inr prepared"
    and "8 * length prepared * 2 \<le> width img * height img * 3"
    and "keeps_size (jpeg L (quality self))"
    and "\<forall>offset < 8. ((width img * height img * 3 div 2 - offset) div 8) mod 16 \<noteq> 0"
  shows "fst (embed_fallback L self iv w cover_path secret_data output_path)
           = (True, ''Fallback embedding successful - Embedded '' @ show_nat (length secret_data)
                    @ '' bytes'')
     \<and> fst (extract_fallback L self
              (snd (embed_fallback L self iv w cover_path secret_data output_path)) output_path)
           = (None, ''No valid data found in fallback extraction'')"
proof -
  from embed_fallback_success [OF assms(1-5)]
  obtain flat g where len: "length flat = length (pixels img)"
    and run: "embed_fallback L self iv w cover_path secret_data output_path =
         ((True, ''Fallback embedding successful - Embedded '' @ show_nat (length secret_data)
                 @ '' bytes''),
          w\<lparr>rng := g,
            files := (files w)(output_path \<mapsto> jpeg L (quality self) (img\<lparr>pixels := flat\<rparr>))\<rparr>)"
    by blast
  define stego where "stego = jpeg L (quality self) (img\<lparr>pixels := flat\<rparr>)"
  define w' where "w' = w\<lparr>rng := g, files := (files w)(output_path \<mapsto> stego)\<rparr>"
  have dims: "width stego = width img" "height stego = height img"
    and size: "length (pixels stego) = length (pixels img)"
    using assms(6) len by (simp_all add: keeps_size_def stego_def)
  have written: "files w' output_path = Some stego"
    by (simp add: w'_def)
  have wf: "wf_image stego"
    using assms(2) dims size by (simp add: wf_image_def)
  have partial:
    "\<forall>offset < 8. ((width stego * height stego * 3 div 2 - offset) div 8) mod 16 \<noteq> 0"
    using assms(7) by (simp add: dims)
  from extract_fallback_partial_blocks [OF written wf partial]
  have "fst (extract_fallback L self w' output_path)
          = (None, ''No valid data found in fallback extraction'')" .
  then show ?thesis
    by (simp add: run w'_def stego_def)
qed

lemma show_nat_5: "show_nat 5 = ''5''"
  by (simp add: show_nat.simps)

theorem roundtrip_lost_witness:
  "fst (embed_fallback sample_lib (init sample_lib ''secure-pass-123'' 90)
          [0, 0, 0, 0, 0, 0, 0, 0, 0, 0, 0, 0, 0, 0, 0, 0] sample_world ''cover.jpg'' hello
          ''stego.jpg'')
     = (True, ''Fallback embedding successful - Embedded 5 bytes'')
   \<and> fst (extract_fallback sample_lib (init sample_lib ''secure-pass-123'' 90)
          (snd (embed_fallback sample_lib (init sample_lib ''secure-pass-123'' 90)
                  [0, 0, 0, 0, 0, 0, 0, 0, 0, 0, 0, 0, 0, 0, 0, 0] sample_world ''cover.jpg'' hello
                  ''stego.jpg''))
          ''stego.jpg'')
     = (None, ''No valid data found in fallback extraction'')"
proof -
  have h1: "length hello < 4294967296" by (simp add: hello_def)
  have h2: "length [0, 0, 0, 0, 0, 0, 0, 0, 0, 0, 0, 0, 0, 0, 0, 0 :: byte] = 16" by simp
  from prepare_data_Inr [OF h1 h2 sample_block_cipher,
      where self = "init sample_lib ''secure-pass-123'' 90"]
  obtain ct where prep: "prepare_data sample_lib (init sample_lib ''secure-pass-123'' 90)
       [0, 0, 0, 0, 0, 0, 0, 0, 0, 0, 0, 0, 0, 0, 0, 0] hello
       = Inr ([0, 0, 0, 0, 0, 0, 0, 0, 0, 0, 0, 0, 0, 0, 0, 0] @ ct)"
    and len: "length ct = 16"
    by (auto simp: length_pad be32_def hello_def)
  have cover: "files sample_world ''cover.jpg'' = Some sample_cover"
    by (simp add: sample_world_def)
  have wf: "wf_image sample_cover"
    by (simp add: wf_image_def sample_cover_def)
  have wr: "writable sample_world ''stego.jpg''"
    by (simp add: sample_world_def)
  have fits: "8 * length ([0, 0, 0, 0, 0, 0, 0, 0, 0, 0, 0, 0, 0, 0, 0, 0 :: byte] @ ct) * 2
                \<le> width sample_cover * height sample_cover * 3"
    by (simp add: len sample_cover_def)
  have codec: "keeps_size (jpeg sample_lib (quality (init sample_lib ''secure-pass-123'' 90)))"
    by (simp add: keeps_size_def sample_lib_def)
  have "\<forall>offset < 8. ((15000 - offset) div 8) mod 16 \<noteq> (0 :: nat)"
    by presburger
  then have partial: "\<forall>offset < 8.
      ((width sample_cover * height sample_cover * 3 div 2 - offset) div 8) mod 16 \<noteq> 0"
    by (simp add: sample_cover_def)
  have "length hello = 5" by (simp add: hello_def)
  then show ?thesis
    using roundtrip_lost [OF cover wf wr prep fits codec partial]
    by (simp only: show_nat_5 append.simps)
qed

end
